theory Spec2Isabelle
  imports Main
begin

section \<open>Namespace helpers\<close>

text \<open>
  Go strings are byte sequences, as \<open>string\<close> (a list of 8-bit \<open>char\<close>) is. The colon
  is one byte, and no multi-byte UTF-8 sequence contains that byte, so working on bytes
  and working on code points agree for everything below.

  \<open>Split s c\<close> is the library call \<^verbatim>\<open>strings.Split(s, sep)\<close> for a separator \<open>sep\<close> of
  one byte \<open>c\<close>, the only way the source calls it (\<^verbatim>\<open>strings.Split(str, ":")\<close>): the
  library looks for the first occurrence of the separator, emits the bytes before it,
  goes on behind it, and emits the rest as the last piece.
\<close>

function Split :: "string \<Rightarrow> char \<Rightarrow> string list" where
  "Split s c =
     (if c \<in> set s
      then takeWhile (\<lambda>x. x \<noteq> c) s # Split (tl (dropWhile (\<lambda>x. x \<noteq> c) s)) c
      else [s])"
  by pat_completeness auto
termination
proof (relation "measure (\<lambda>(s, c). length s)")
  show "wf (measure (\<lambda>(s, c). length s))" by simp
next
  fix s :: string and c :: char
  assume "c \<in> set s"
  then have "dropWhile (\<lambda>x. x \<noteq> c) s \<noteq> []" by simp
  then have "length (tl (dropWhile (\<lambda>x. x \<noteq> c) s)) < length (dropWhile (\<lambda>x. x \<noteq> c) s)"
    by (cases "dropWhile (\<lambda>x. x \<noteq> c) s") simp_all
  also have "\<dots> \<le> length s" by (rule length_dropWhile_le)
  finally show "((tl (dropWhile (\<lambda>x. x \<noteq> c) s), c), (s, c)) \<in> measure (\<lambda>(s, c). length s)"
    by simp
qed

declare Split.simps [simp del]

text \<open>
  \<^verbatim>\<open>
  func getNSPrefix(str string) (ns string) {
      split := strings.Split(str, ":")
      if len(split) == 2 {
          ns = split[0]
          return
      }
      return
  }
  \<close>
  The named result \<open>ns\<close> starts as the empty string. Both index reads are guarded by
  the length test, so neither can be out of range.
\<close>

definition getNSPrefix :: "string \<Rightarrow> string" where
  "getNSPrefix str =
     (let split = Split str (CHR '':'')
      in if length split = 2 then split ! 0 else [])"

text \<open>
  \<^verbatim>\<open>
  func trimNSPrefix(str string) (name string) {
      split := strings.Split(str, ":")
      if len(split) == 2 {
          name = split[1]
          return
      }
      name = str
      return
  }
  \<close>
\<close>

definition trimNSPrefix :: "string \<Rightarrow> string" where
  "trimNSPrefix str =
     (let split = Split str (CHR '':'')
      in if length split = 2 then split ! 1 else str)"

section \<open>The built-in type table\<close>

text \<open>
  \<^verbatim>\<open>var BuildInTypes = map[string][]string{ ... }\<close>: the map literal of the source,
  entry by entry in the order it is written. Go rejects a map literal with a repeated
  constant key at compile time, so the literal denotes the map \<open>BuildInTypes\<close> below.
\<close>

definition BuildInTypes_entries :: "(string \<times> string list) list" where
  "BuildInTypes_entries = [
    (''anyType'', [''string'', ''string'', ''char'', ''String'', ''char'']),
    (''ENTITIES'', [''[]string'', ''Array<string>'', ''char[]'', ''List<String>'', ''Vec<char>'']),
    (''ENTITY'', [''string'', ''string'', ''char'', ''String'', ''char'']),
    (''ID'', [''string'', ''string'', ''char'', ''String'', ''char'']),
    (''IDREF'', [''string'', ''string'', ''char'', ''String'', ''char'']),
    (''IDREFS'', [''[]string'', ''Array<string>'', ''char[]'', ''List<String>'', ''Vec<char>'']),
    (''NCName'', [''string'', ''string'', ''char'', ''String'', ''char'']),
    (''NMTOKEN'', [''string'', ''string'', ''char'', ''String'', ''char'']),
    (''NMTOKENS'', [''[]string'', ''Array<string>'', ''char[]'', ''List<String>'', ''Vec<char>'']),
    (''NOTATION'', [''[]string'', ''Array<string>'', ''char[]'', ''List<String>'', ''Vec<char>'']),
    (''Name'', [''string'', ''string'', ''char'', ''String'', ''char'']),
    (''QName'', [''xml.Name'', ''any'', ''char'', ''String'', ''char'']),
    (''anyURI'', [''string'', ''string'', ''char'', ''QName'', ''char'']),
    (''base64Binary'', [''[]byte'', ''Array<any>'', ''char[]'', ''List<Byte>'', ''Vec<u8>'']),
    (''boolean'', [''bool'', ''boolean'', ''bool'', ''Boolean'', ''bool'']),
    (''byte'', [''byte'', ''any'', ''char[]'', ''Byte'', ''&[u8]'']),
    (''date'', [''time.Time'', ''string'', ''char'', ''Byte'', ''&[u8]'']),
    (''dateTime'', [''time.Time'', ''string'', ''char'', ''Byte'', ''&[u8]'']),
    (''decimal'', [''float64'', ''number'', ''float'', ''Float'', ''f64'']),
    (''double'', [''float64'', ''number'', ''float'', ''Float'', ''f64'']),
    (''duration'', [''string'', ''string'', ''char'', ''String'', ''char'']),
    (''float'', [''float'', ''number'', ''float'', ''Float'', ''usize'']),
    (''gDay'', [''time.Time'', ''string'', ''char'', ''String'', ''char'']),
    (''gMonth'', [''time.Time'', ''string'', ''char'', ''String'', ''char'']),
    (''gMonthDay'', [''time.Time'', ''string'', ''char'', ''String'', ''char'']),
    (''gYear'', [''time.Time'', ''string'', ''char'', ''String'', ''char'']),
    (''gYearMonth'', [''time.Time'', ''string'', ''char'', ''String'', ''char'']),
    (''hexBinary'', [''[]byte'', ''Array<any>'', ''char[]'', ''List<Byte>'', ''Vec<u8>'']),
    (''int'', [''int'', ''number'', ''int'', ''Integer'', ''isize'']),
    (''integer'', [''int'', ''number'', ''int'', ''Integer'', ''isize'']),
    (''language'', [''string'', ''string'', ''char'', ''String'', ''char'']),
    (''long'', [''int64'', ''number'', ''int'', ''Long'', ''i64'']),
    (''negativeInteger'', [''int'', ''number'', ''int'', ''Integer'', ''isize'']),
    (''nonNegativeInteger'', [''int'', ''number'', ''int'', ''Integer'', ''isize'']),
    (''normalizedString'', [''string'', ''string'', ''char'', ''String'', ''char'']),
    (''nonPositiveInteger'', [''int'', ''number'', ''int'', ''Integer'', ''isize'']),
    (''positiveInteger'', [''int'', ''number'', ''int'', ''Integer'', ''isize'']),
    (''short'', [''int16'', ''number'', ''int'', ''Integer'', ''i16'']),
    (''string'', [''string'', ''string'', ''char'', ''String'', ''char'']),
    (''time'', [''time.Time'', ''string'', ''char'', ''String'', ''char'']),
    (''token'', [''string'', ''string'', ''char'', ''String'', ''char'']),
    (''unsignedByte'', [''byte'', ''any'', ''char'', ''Byte'', ''&[u8]'']),
    (''unsignedInt'', [''uint32'', ''number'', ''unsigned int'', ''Integer'', ''u32'']),
    (''unsignedLong'', [''uint64'', ''number'', ''unsigned int'', ''Long'', ''u64'']),
    (''unsignedShort'', [''uint16'', ''number'', ''unsigned int'', ''Short'', ''u16'']),
    (''xml:lang'', [''string'', ''string'', ''char'', ''String'', ''char'']),
    (''xml:space'', [''string'', ''string'', ''char'', ''String'', ''char'']),
    (''xml:base'', [''string'', ''string'', ''char'', ''String'', ''char'']),
    (''xml:id'', [''string'', ''string'', ''char'', ''String'', ''char''])]"

definition BuildInTypes :: "string \<rightharpoonup> string list" where
  "BuildInTypes = map_of BuildInTypes_entries"

text \<open>
  A run-time panic of the Go program is a value of the model.
\<close>

datatype panic = IndexOutOfRange | InvalidValue | IsNilOfNonNilableKind | TypeAssertionFailed
  | CallPanic string

text \<open>
  \<^verbatim>\<open>
  func getBuildInTypeByLang(value, lang string) (buildType string, ok bool) {
      var supportLang = map[string]int{
          "Go": 0, "TypeScript": 1, "C": 2, "Java": 3, "Rust": 4,
      }
      var buildInTypes []string
      if buildInTypes, ok = BuildInTypes[value]; !ok {
          return
      }
      buildType = buildInTypes[supportLang[lang]]
      return
  }
  \<close>
  Reading a Go map at a key it does not hold gives the zero value of the element type:
  \<open>supportLang_at\<close> is the read \<^verbatim>\<open>supportLang[lang]\<close>, which is \<open>0\<close> for a language
  that is not a key. Indexing a slice beyond its length panics.
\<close>

definition supportLang :: "string \<rightharpoonup> nat" where
  "supportLang = map_of [(''Go'', 0), (''TypeScript'', 1), (''C'', 2), (''Java'', 3), (''Rust'', 4)]"

definition supportLang_at :: "string \<Rightarrow> nat" where
  "supportLang_at lang = (case supportLang lang of None \<Rightarrow> 0 | Some i \<Rightarrow> i)"

definition getBuildInTypeByLang :: "string \<Rightarrow> string \<Rightarrow> panic + (string \<times> bool)" where
  "getBuildInTypeByLang v lang =
     (case BuildInTypes v of
        None \<Rightarrow> Inr ([], False)
      | Some buildInTypes \<Rightarrow>
          (let i = supportLang_at lang
           in if i < length buildInTypes then Inr (buildInTypes ! i, True)
              else Inl IndexOutOfRange))"

section \<open>Resolving a name to its base type\<close>

text \<open>
  Modelled from the spec: the struct types \<^verbatim>\<open>SimpleType\<close>, \<^verbatim>\<open>Attribute\<close> and \<^verbatim>\<open>Element\<close>,
  which \<^verbatim>\<open>utils.go\<close> uses and does not declare. By the specification a declaration
  has a name and a reference to a base or type, both strings, and a simple type has
  two flags besides, which it calls \<open>IsList\<close> and \<open>IsUnion\<close>. The records below carry
  these fields under the names \<^verbatim>\<open>getBasefromSimpleType\<close> reads them by (\<^verbatim>\<open>v.Name\<close>,
  \<^verbatim>\<open>v.Base\<close>, \<^verbatim>\<open>v.List\<close>, \<^verbatim>\<open>v.Union\<close>, \<^verbatim>\<open>v.Type\<close>).
\<close>

record SimpleType =
  Name :: string
  Base :: string
  List :: bool
  Union :: bool

record Attribute =
  Name :: string
  Type :: string

record Element =
  Name :: string
  Type :: string

text \<open>
  An element of \<^verbatim>\<open>XSDSchema []interface{}\<close> is a pointer to a declaration of some kind.
  The type switch tells three kinds apart and has no \<^verbatim>\<open>default\<close> branch, so every other
  kind (\<open>OtherDecl\<close>: complex types, groups, ...) is passed over. The pointers are the
  ones the parser allocates; none of them is nil.
\<close>

datatype Declaration =
    SimpleTypePtr SimpleType
  | AttributePtr Attribute
  | ElementPtr Element
  | OtherDecl

text \<open>
  \<^verbatim>\<open>
  func getBasefromSimpleType(name string, XSDSchema []interface{}) string {
      for _, ele := range XSDSchema {
          switch v := ele.(type) {
          case *SimpleType:
              if !v.List && !v.Union && v.Name == name {
                  return v.Base
              }
          case *Attribute:
              if v.Name == name {
                  return v.Type
              }
          case *Element:
              if v.Name == name {
                  return v.Type
              }
          }
      }
      return name
  }
  \<close>
\<close>

fun getBasefromSimpleType :: "string \<Rightarrow> Declaration list \<Rightarrow> string" where
  "getBasefromSimpleType name [] = name"
| "getBasefromSimpleType name (ele # XSDSchema) =
     (case ele of
        SimpleTypePtr v \<Rightarrow>
          if \<not> SimpleType.List v \<and> \<not> SimpleType.Union v \<and> SimpleType.Name v = name
          then SimpleType.Base v
          else getBasefromSimpleType name XSDSchema
      | AttributePtr v \<Rightarrow>
          if Attribute.Name v = name then Attribute.Type v
          else getBasefromSimpleType name XSDSchema
      | ElementPtr v \<Rightarrow>
          if Element.Name v = name then Element.Type v
          else getBasefromSimpleType name XSDSchema
      | OtherDecl \<Rightarrow> getBasefromSimpleType name XSDSchema)"

text \<open>
  The resolution as the specification words it, in two passes: the first simple type
  that qualifies anywhere in the list, else the first attribute or element of that
  name, else the name.
\<close>

fun qualifying_SimpleType :: "string \<Rightarrow> Declaration \<Rightarrow> bool" where
  "qualifying_SimpleType name (SimpleTypePtr v) =
     (SimpleType.Name v = name \<and> \<not> SimpleType.List v \<and> \<not> SimpleType.Union v)"
| "qualifying_SimpleType name _ = False"

fun named_Attribute_or_Element :: "string \<Rightarrow> Declaration \<Rightarrow> bool" where
  "named_Attribute_or_Element name (AttributePtr v) = (Attribute.Name v = name)"
| "named_Attribute_or_Element name (ElementPtr v) = (Element.Name v = name)"
| "named_Attribute_or_Element name _ = False"

fun reference_of :: "Declaration \<Rightarrow> string" where
  "reference_of (SimpleTypePtr v) = SimpleType.Base v"
| "reference_of (AttributePtr v) = Attribute.Type v"
| "reference_of (ElementPtr v) = Element.Type v"
| "reference_of OtherDecl = []"

definition ResolveBase_spec :: "string \<Rightarrow> Declaration list \<Rightarrow> string" where
  "ResolveBase_spec name ds =
     (case find (qualifying_SimpleType name) ds of
        Some d \<Rightarrow> reference_of d
      | None \<Rightarrow>
          (case find (named_Attribute_or_Element name) ds of
             Some d \<Rightarrow> reference_of d
           | None \<Rightarrow> name))"

definition shadowing_schema :: "Declaration list" where
  "shadowing_schema =
     [AttributePtr \<lparr>Attribute.Name = ''Foo'', Type = ''int''\<rparr>,
      SimpleTypePtr \<lparr>SimpleType.Name = ''Foo'', Base = ''string'', List = False, Union = False\<rparr>]"

section \<open>Schema sources: the file system\<close>

text \<open>
  A Go \<^verbatim>\<open>error\<close> value: the causes the functions below tell apart, the two sentinels of
  \<^verbatim>\<open>path/filepath\<close>, and any other failure with its message.
\<close>

datatype error = ErrNotExist | ErrPermission | ErrNotDir | SkipDir | SkipAll | Err string

text \<open>
  What is found at a path. A directory carries its entries in the order the walk reads
  them (\<^verbatim>\<open>filepath.Walk\<close> reads the names sorted), each under the path that
  \<^verbatim>\<open>filepath.Join(dir, name)\<close> gives it, with the outcome of \<^verbatim>\<open>os.Lstat\<close> on it.
  \<open>DirUnreadable\<close> is a directory whose listing fails. \<open>Symlink\<close> is a symbolic link
  as \<^verbatim>\<open>os.Lstat\<close> reports it: the link itself, which is no directory whatever it
  points to.
\<close>

datatype fstree =
    File
  | Symlink
  | Dir "(string \<times> (error + fstree)) list"
  | DirUnreadable error

fun IsDir :: "fstree \<Rightarrow> bool" where
  "IsDir File = False"
| "IsDir Symlink = False"
| "IsDir (Dir entries) = True"
| "IsDir (DirUnreadable e) = True"

text \<open>
  The file system is state. For a path it answers two questions, which differ on
  symbolic links: \<open>stat\<close> is what \<^verbatim>\<open>os.Stat\<close> finds after following links, \<open>lstat\<close>
  is what \<^verbatim>\<open>os.Lstat\<close> finds without following them. \<open>mkdir_error\<close> is the failure
  the system reports when asked to create a directory at the path (\<open>None\<close>: it
  creates it).
\<close>

record filesystem =
  stat :: "string \<Rightarrow> error + fstree"
  lstat :: "string \<Rightarrow> error + fstree"
  mkdir_error :: "string \<Rightarrow> error option"

definition os_Stat :: "filesystem \<Rightarrow> string \<Rightarrow> error + fstree" where
  "os_Stat fs path = stat fs path"

definition os_Lstat :: "filesystem \<Rightarrow> string \<Rightarrow> error + fstree" where
  "os_Lstat fs path = lstat fs path"

fun os_IsNotExist :: "error option \<Rightarrow> bool" where
  "os_IsNotExist (Some ErrNotExist) = True"
| "os_IsNotExist _ = False"

text \<open>
  \<^verbatim>\<open>os.MkdirAll(path, 0755)\<close> asks \<^verbatim>\<open>os.Stat\<close> first: nothing to do for a directory
  that is there, a failure for a path that is there and is not a directory, else the
  directory is created unless the system refuses. The state keeps one entry per path,
  so the parents that the call creates on the way are not recorded.
\<close>

definition os_MkdirAll :: "filesystem \<Rightarrow> string \<Rightarrow> filesystem \<times> error option" where
  "os_MkdirAll fs path =
     (case os_Stat fs path of
        Inr fi \<Rightarrow> if IsDir fi then (fs, None) else (fs, Some ErrNotDir)
      | Inl _ \<Rightarrow>
          (case mkdir_error fs path of
             Some e \<Rightarrow> (fs, Some e)
           | None \<Rightarrow>
               (fs\<lparr>stat := (stat fs)(path := Inr (Dir [])),
                   lstat := (lstat fs)(path := Inr (Dir []))\<rparr>, None)))"

text \<open>
  \<^verbatim>\<open>filepath.Walk(root, fn)\<close> of the Go library. The callback gets the path, the file
  information (\<open>None\<close> for Go's nil) and the error met at that path, and returns an
  error; the state it mutates is threaded through. The library looks at the root with
  \<^verbatim>\<open>os.Lstat\<close> and calls the callback for it first, then walks the entries of a
  directory in order, each before its own entries; it does not follow a symbolic link.
  A callback error stops the walk, but for \<open>SkipDir\<close> on a directory, which only leaves
  that directory out.
\<close>

type_synonym 'st WalkFunc = "string \<Rightarrow> fstree option \<Rightarrow> error option \<Rightarrow> 'st \<Rightarrow> 'st \<times> error option"

function (sequential) walk :: "string \<Rightarrow> fstree \<Rightarrow> 'st WalkFunc \<Rightarrow> 'st \<Rightarrow> 'st \<times> error option"
  and walk_names :: "(string \<times> (error + fstree)) list \<Rightarrow> 'st WalkFunc \<Rightarrow> 'st \<Rightarrow> 'st \<times> error option"
where
  "walk path File walkFn st = walkFn path (Some File) None st"
| "walk path Symlink walkFn st = walkFn path (Some Symlink) None st"
| "walk path (DirUnreadable e) walkFn st = walkFn path (Some (DirUnreadable e)) (Some e) st"
| "walk path (Dir names) walkFn st =
     (case walkFn path (Some (Dir names)) None st of
        (st1, Some err1) \<Rightarrow> (st1, Some err1)
      | (st1, None) \<Rightarrow> walk_names names walkFn st1)"
| "walk_names [] walkFn st = (st, None)"
| "walk_names ((filename, Inl e) # names) walkFn st =
     (case walkFn filename None (Some e) st of
        (st1, Some err) \<Rightarrow>
          if err \<noteq> SkipDir \<and> err \<noteq> SkipAll then (st1, Some err)
          else walk_names names walkFn st1
      | (st1, None) \<Rightarrow> walk_names names walkFn st1)"
| "walk_names ((filename, Inr fileInfo) # names) walkFn st =
     (case walk filename fileInfo walkFn st of
        (st1, Some err) \<Rightarrow>
          if \<not> IsDir fileInfo \<or> err \<noteq> SkipDir then (st1, Some err)
          else walk_names names walkFn st1
      | (st1, None) \<Rightarrow> walk_names names walkFn st1)"
  by pat_completeness auto
termination
  by (relation "measure (case_sum (\<lambda>(path, t, walkFn, st). size t)
        (\<lambda>(names, walkFn, st). size_list (size_prod (\<lambda>_. 0) (size_sum (\<lambda>_. 0) size)) names))")
    simp_all

definition filepath_Walk :: "filesystem \<Rightarrow> string \<Rightarrow> 'st WalkFunc \<Rightarrow> 'st \<Rightarrow> 'st \<times> error option" where
  "filepath_Walk fs root fn st =
     (case (case os_Lstat fs root of
              Inl e \<Rightarrow> fn root None (Some e) st
            | Inr info \<Rightarrow> walk root info fn st) of
        (st1, Some err) \<Rightarrow> if err = SkipDir \<or> err = SkipAll then (st1, None) else (st1, Some err)
      | (st1, None) \<Rightarrow> (st1, None))"

text \<open>
  \<^verbatim>\<open>
  func GetFileList(path string) (files []string, err error) {
      var fi os.FileInfo
      fi, err = os.Stat(path)
      if err != nil {
          return
      }
      if fi.IsDir() {
          err = filepath.Walk(path, func(fp string, info os.FileInfo, err error) error {
              files = append(files, fp)
              return nil
          })
          if err != nil {
              return
          }
      }
      files = append(files, path)
      return
  }
  \<close>
  The function only reads the file system. The closure appends to the named result
  \<open>files\<close>, which is the state threaded through the walk.
\<close>

definition GetFileList :: "filesystem \<Rightarrow> string \<Rightarrow> string list \<times> error option" where
  "GetFileList fs path =
     (case os_Stat fs path of
        Inl err \<Rightarrow> ([], Some err)
      | Inr fi \<Rightarrow>
          if IsDir fi
          then (case filepath_Walk fs path (\<lambda>fp info err files. (files @ [fp], None)) [] of
                  (files, Some err) \<Rightarrow> (files, Some err)
                | (files, None) \<Rightarrow> (files @ [path], None))
          else ([] @ [path], None))"

text \<open>
  The paths of a tree in the order the walk visits them: the node itself, then its
  entries in order, each with everything below it.
\<close>

function (sequential) visited :: "string \<Rightarrow> fstree \<Rightarrow> string list"
  and visited_names :: "(string \<times> (error + fstree)) list \<Rightarrow> string list"
where
  "visited path File = [path]"
| "visited path Symlink = [path]"
| "visited path (DirUnreadable e) = [path]"
| "visited path (Dir names) = path # visited_names names"
| "visited_names [] = []"
| "visited_names ((filename, Inl e) # names) = filename # visited_names names"
| "visited_names ((filename, Inr fileInfo) # names) = visited filename fileInfo @ visited_names names"
  by pat_completeness auto
termination
  by (relation "measure (case_sum (\<lambda>(path, t). size t)
        (\<lambda>names. size_list (size_prod (\<lambda>_. 0) (size_sum (\<lambda>_. 0) size)) names))")
    simp_all

text \<open>
  \<^verbatim>\<open>
  func PrepareOutputDir(path string) error {
      if path == "" {
          return nil
      }
      _, err := os.Stat(path)
      if os.IsNotExist(err) {
          if err := os.MkdirAll(path, 0755); err != nil {
              return err
          }
      }
      return nil
  }
  \<close>
\<close>

definition PrepareOutputDir :: "filesystem \<Rightarrow> string \<Rightarrow> filesystem \<times> error option" where
  "PrepareOutputDir fs path =
     (if path = [] then (fs, None)
      else
        (let err = (case os_Stat fs path of Inl e \<Rightarrow> Some e | Inr _ \<Rightarrow> None)
         in if os_IsNotExist err
            then (case os_MkdirAll fs path of
                    (fs', Some err') \<Rightarrow> (fs', Some err')
                  | (fs', None) \<Rightarrow> (fs', None))
            else (fs, None)))"

text \<open>A directory \<open>d\<close> with exactly the two files \<open>d/A\<close> and \<open>d/B\<close>.\<close>

definition two_entries_fs :: filesystem where
  "two_entries_fs =
     \<lparr>stat = (\<lambda>p. if p = ''d'' then Inr (Dir [(''d/A'', Inr File), (''d/B'', Inr File)])
                   else if p = ''d/A'' \<or> p = ''d/B'' then Inr File
                   else Inl ErrNotExist),
      lstat = (\<lambda>p. if p = ''d'' then Inr (Dir [(''d/A'', Inr File), (''d/B'', Inr File)])
                   else if p = ''d/A'' \<or> p = ''d/B'' then Inr File
                   else Inl ErrNotExist),
      mkdir_error = (\<lambda>p. None)\<rparr>"

text \<open>The same directory, and a symbolic link \<open>link\<close> that points to it.\<close>

definition linked_fs :: filesystem where
  "linked_fs =
     \<lparr>stat = (\<lambda>p. if p = ''d'' \<or> p = ''link''
                   then Inr (Dir [(''d/A'', Inr File), (''d/B'', Inr File)])
                   else if p = ''d/A'' \<or> p = ''d/B'' then Inr File
                   else Inl ErrNotExist),
      lstat = (\<lambda>p. if p = ''d'' then Inr (Dir [(''d/A'', Inr File), (''d/B'', Inr File)])
                   else if p = ''link'' then Inr Symlink
                   else if p = ''d/A'' \<or> p = ''d/B'' then Inr File
                   else Inl ErrNotExist),
      mkdir_error = (\<lambda>p. None)\<rparr>"

text \<open>A file system where looking at \<open>locked/out\<close> is refused.\<close>

definition locked_fs :: filesystem where
  "locked_fs =
     \<lparr>stat = (\<lambda>p. if p = ''locked/out'' then Inl ErrPermission else Inl ErrNotExist),
      lstat = (\<lambda>p. if p = ''locked/out'' then Inl ErrPermission else Inl ErrNotExist),
      mkdir_error = (\<lambda>p. None)\<rparr>"

section \<open>Schema sources: the network\<close>









section \<open>Dispatch by method name\<close>

text \<open>
  What \<^verbatim>\<open>callFuncByName\<close> sees of a result value \<^verbatim>\<open>rt[0]\<close> through \<^verbatim>\<open>reflect\<close>:
  a nil value of a kind that can be nil, a non-nil value that holds an error, a non-nil
  value of such a kind that is no error (the type assertion panics), or a value of a
  kind for which \<^verbatim>\<open>IsNil\<close> panics (an integer, a string, a struct).
\<close>

datatype rvalue = NilValue | ErrorValue error | NonErrorValue | NonNilableValue

text \<open>
  A method, called with the parameters, returns its results or panics (\<^verbatim>\<open>Call\<close> itself
  panics when the parameters do not fit the signature). A receiver is its method set;
  \<open>None\<close> is the nil interface, whose \<^verbatim>\<open>reflect.ValueOf\<close> is the zero \<^verbatim>\<open>Value\<close>, on which
  \<^verbatim>\<open>MethodByName\<close> panics. What the called method does to the generator is outside of
  what \<^verbatim>\<open>callFuncByName\<close> returns.
\<close>

type_synonym 'p Method = "'p list \<Rightarrow> panic + rvalue list"

fun IsNil :: "rvalue \<Rightarrow> panic + bool" where
  "IsNil NilValue = Inr True"
| "IsNil (ErrorValue e) = Inr False"
| "IsNil NonErrorValue = Inr False"
| "IsNil NonNilableValue = Inl IsNilOfNonNilableKind"

text \<open>
  \<^verbatim>\<open>
  func callFuncByName(receiver interface{}, name string, params []reflect.Value) (err error) {
      function := reflect.ValueOf(receiver).MethodByName(name)
      if function.IsValid() {
          rt := function.Call(params)
          if len(rt) == 0 {
              return
          }
          if !rt[0].IsNil() {
              err = rt[0].Interface().(error)
              return
          }
      }
      return
  }
  \<close>
\<close>

definition callFuncByName :: "(string \<rightharpoonup> 'p Method) option \<Rightarrow> string \<Rightarrow> 'p list \<Rightarrow> panic + error option" where
  "callFuncByName receiver name params =
     (case receiver of
        None \<Rightarrow> Inl InvalidValue
      | Some methods \<Rightarrow>
          (case methods name of
             None \<Rightarrow> Inr None
           | Some function \<Rightarrow>
               (case function params of
                  Inl p \<Rightarrow> Inl p
                | Inr rt \<Rightarrow>
                    if length rt = 0 then Inr None
                    else
                      (case IsNil (rt ! 0) of
                         Inl p \<Rightarrow> Inl p
                       | Inr isNil \<Rightarrow>
                           if \<not> isNil
                           then (case rt ! 0 of
                                   ErrorValue e \<Rightarrow> Inr (Some e)
                                 | _ \<Rightarrow> Inl TypeAssertionFailed)
                           else Inr None))))"

text \<open>
  A generator with three methods: one without results, one that returns a nil error,
  one that returns an error.
\<close>

definition sample_generator :: "string \<rightharpoonup> nat Method" where
  "sample_generator =
     [''GoElement'' \<mapsto> (\<lambda>params. Inr []),
      ''GoAttribute'' \<mapsto> (\<lambda>params. Inr [NilValue]),
      ''GoSimpleType'' \<mapsto> (\<lambda>params. Inr [ErrorValue (Err ''unsupported'')])]"

section \<open>Properties of the namespace helpers\<close>

lemma Split_no_sep: "c \<notin> set s \<Longrightarrow> Split s c = [s]"
  by (simp add: Split.simps)

lemma takeWhile_upto_sep: "c \<notin> set p \<Longrightarrow> takeWhile (\<lambda>x. x \<noteq> c) (p @ c # q) = p"
  by (induction p) auto

lemma dropWhile_upto_sep: "c \<notin> set p \<Longrightarrow> dropWhile (\<lambda>x. x \<noteq> c) (p @ c # q) = c # q"
  by (induction p) auto

lemma Split_at_first_sep:
  assumes "c \<notin> set p"
  shows "Split (p @ c # q) c = p # Split q c"
  by (subst Split.simps)
    (simp add: takeWhile_upto_sep [OF assms] dropWhile_upto_sep [OF assms])

lemma length_Split: "length (Split s c) = Suc (count_list s c)"
proof (induction s c rule: Split.induct)
  case (1 s c)
  show ?case
  proof (cases "c \<in> set s")
    case False
    then show ?thesis by (simp add: Split_no_sep)
  next
    case True
    then obtain p q where s: "s = p @ c # q" and p: "c \<notin> set p"
      by (auto dest: split_list_first)
    have dw: "tl (dropWhile (\<lambda>x. x \<noteq> c) s) = q"
      by (simp add: s dropWhile_upto_sep [OF p])
    have "count_list p c = 0" using p by simp
    then have cnt: "count_list s c = Suc (count_list q c)"
      by (simp add: s)
    have sp: "Split s c = p # Split q c"
      unfolding s by (rule Split_at_first_sep [OF p])
    from "1.IH" [OF True] have "length (Split q c) = Suc (count_list q c)"
      by (simp add: dw)
    then show ?thesis
      by (simp only: sp cnt list.size(4))
  qed
qed

lemma one_sep_decomp:
  assumes "count_list s c = 1"
  obtains p q where "s = p @ c # q" and "c \<notin> set p" and "c \<notin> set q"
proof -
  from assms have "c \<in> set s"
    by (metis count_list_0_iff zero_neq_one)
  then obtain p q where s: "s = p @ c # q" and p: "c \<notin> set p"
    by (auto dest: split_list_first)
  have "count_list p c = 0" using p by simp
  with assms have "count_list q c = 0" by (simp add: s)
  then have "c \<notin> set q" by (simp add: count_list_0_iff)
  with s p that show thesis by blast
qed

lemma Split_one_sep:
  assumes "c \<notin> set p" and "c \<notin> set q"
  shows "Split (p @ c # q) c = [p, q]"
  by (simp add: Split_at_first_sep [OF assms(1)] Split_no_sep [OF assms(2)])

text \<open>
  Claim C7. \<open>getNSPrefix\<close> returns the bytes before the colon when the string has
  exactly one colon, and the empty string when it has none or at least two;
  \<open>trimNSPrefix\<close> returns the bytes after the colon when the string has exactly one
  colon, and the string itself otherwise.
\<close>

theorem ns_helpers_exactly_one_colon:
  "(count_list s (CHR '':'') = 1 \<longrightarrow>
      (\<exists>p q. s = p @ CHR '':'' # q \<and> CHR '':'' \<notin> set p \<and> CHR '':'' \<notin> set q
         \<and> getNSPrefix s = p \<and> trimNSPrefix s = q))
   \<and> (count_list s (CHR '':'') \<noteq> 1 \<longrightarrow> getNSPrefix s = [] \<and> trimNSPrefix s = s)"
proof (intro conjI impI)
  assume one: "count_list s (CHR '':'') = 1"
  then obtain p q where s: "s = p @ CHR '':'' # q"
    and p: "CHR '':'' \<notin> set p" and q: "CHR '':'' \<notin> set q"
    by (rule one_sep_decomp)
  have "Split s (CHR '':'') = [p, q]"
    unfolding s by (rule Split_one_sep [OF p q])
  then have "getNSPrefix s = p \<and> trimNSPrefix s = q"
    by (simp add: getNSPrefix_def trimNSPrefix_def)
  with s p q
  show "\<exists>p q. s = p @ CHR '':'' # q \<and> CHR '':'' \<notin> set p \<and> CHR '':'' \<notin> set q
         \<and> getNSPrefix s = p \<and> trimNSPrefix s = q"
    by blast
next
  assume "count_list s (CHR '':'') \<noteq> 1"
  then have "length (Split s (CHR '':'')) \<noteq> 2"
    by (simp add: length_Split)
  then show "getNSPrefix s = []" and "trimNSPrefix s = s"
    by (simp_all add: getNSPrefix_def trimNSPrefix_def)
qed

theorem ns_helpers_exactly_one_colon_witness:
  "getNSPrefix ''ns:Elem'' = ''ns'' \<and> trimNSPrefix ''ns:Elem'' = ''Elem''
   \<and> getNSPrefix ''Elem'' = [] \<and> trimNSPrefix ''Elem'' = ''Elem''
   \<and> getNSPrefix ''a:b:c'' = [] \<and> trimNSPrefix ''a:b:c'' = ''a:b:c''"
proof -
  have one: "count_list ''ns:Elem'' (CHR '':'') = 1" by simp
  from ns_helpers_exactly_one_colon [of "''ns:Elem''"] one
  obtain p q where s: "''ns:Elem'' = p @ CHR '':'' # q" and p: "CHR '':'' \<notin> set p"
    and r: "getNSPrefix ''ns:Elem'' = p" "trimNSPrefix ''ns:Elem'' = q"
    by blast
  have e: "p @ CHR '':'' # q = ''ns'' @ CHR '':'' # ''Elem''"
    using s by simp
  have n: "CHR '':'' \<notin> set ''ns''" by simp
  have "takeWhile (\<lambda>x. x \<noteq> CHR '':'') (p @ CHR '':'' # q) = p"
    by (rule takeWhile_upto_sep [OF p])
  moreover have "takeWhile (\<lambda>x. x \<noteq> CHR '':'') (''ns'' @ CHR '':'' # ''Elem'') = ''ns''"
    by (rule takeWhile_upto_sep [OF n])
  ultimately have pv: "p = ''ns''" by (simp only: e)
  have "dropWhile (\<lambda>x. x \<noteq> CHR '':'') (p @ CHR '':'' # q) = CHR '':'' # q"
    by (rule dropWhile_upto_sep [OF p])
  moreover have "dropWhile (\<lambda>x. x \<noteq> CHR '':'') (''ns'' @ CHR '':'' # ''Elem'')
      = CHR '':'' # ''Elem''"
    by (rule dropWhile_upto_sep [OF n])
  ultimately have qv: "q = ''Elem''" by (simp only: e list.inject)
  from r pv qv
  have a: "getNSPrefix ''ns:Elem'' = ''ns'' \<and> trimNSPrefix ''ns:Elem'' = ''Elem''"
    by simp
  have zero: "count_list ''Elem'' (CHR '':'') \<noteq> 1" by simp
  have two: "count_list ''a:b:c'' (CHR '':'') \<noteq> 1" by simp
  from ns_helpers_exactly_one_colon [of "''Elem''"] zero
  have b: "getNSPrefix ''Elem'' = [] \<and> trimNSPrefix ''Elem'' = ''Elem''" by blast
  from ns_helpers_exactly_one_colon [of "''a:b:c''"] two
  have c: "getNSPrefix ''a:b:c'' = [] \<and> trimNSPrefix ''a:b:c'' = ''a:b:c''" by blast
  from a b c show ?thesis by blast
qed

text \<open>
  Claim C10. For a string with exactly one colon, the prefix, a colon and the local
  name put together give the string back.
\<close>

theorem ns_split_lossless:
  assumes "count_list s (CHR '':'') = 1"
  shows "getNSPrefix s @ '':'' @ trimNSPrefix s = s"
proof -
  from assms obtain p q where s: "s = p @ CHR '':'' # q"
    and p: "CHR '':'' \<notin> set p" and q: "CHR '':'' \<notin> set q"
    by (rule one_sep_decomp)
  have "Split s (CHR '':'') = [p, q]"
    unfolding s by (rule Split_one_sep [OF p q])
  then have "getNSPrefix s = p" and "trimNSPrefix s = q"
    by (simp_all add: getNSPrefix_def trimNSPrefix_def)
  then show ?thesis by (simp add: s)
qed

theorem ns_split_lossless_witness:
  "count_list ''xs:string'' (CHR '':'') = 1
   \<and> getNSPrefix ''xs:string'' @ '':'' @ trimNSPrefix ''xs:string'' = ''xs:string''"
proof -
  have h: "count_list ''xs:string'' (CHR '':'') = 1" by simp
  from ns_split_lossless [OF h] h show ?thesis by simp
qed

section \<open>Properties of the built-in type table\<close>

lemma BuildInTypes_keys_distinct: "distinct (map fst BuildInTypes_entries)"
  unfolding BuildInTypes_entries_def by simp

lemma BuildInTypes_entries_shape:
  "list_all (\<lambda>(k, v). length v = 5 \<and> list_all (\<lambda>t. t \<noteq> []) v) BuildInTypes_entries"
  unfolding BuildInTypes_entries_def by simp

lemma dom_BuildInTypes: "dom BuildInTypes = set (map fst BuildInTypes_entries)"
  by (simp add: BuildInTypes_def dom_map_of_conv_image_fst)

lemma BuildInTypes_value_shape:
  assumes "BuildInTypes k = Some v"
  shows "length v = 5" and "\<forall>t \<in> set v. t \<noteq> []"
proof -
  from assms have "(k, v) \<in> set BuildInTypes_entries"
    unfolding BuildInTypes_def by (rule map_of_SomeD)
  with BuildInTypes_entries_shape
  have "length v = 5 \<and> list_all (\<lambda>t. t \<noteq> []) v"
    by (auto simp: list_all_iff)
  then show "length v = 5" and "\<forall>t \<in> set v. t \<noteq> []"
    by (simp_all add: list_all_iff)
qed

lemma supportLang_at_bound: "supportLang_at lang < 5"
  by (simp add: supportLang_at_def supportLang_def)

lemma supportLang_at_unsupported: "lang \<notin> dom supportLang \<Longrightarrow> supportLang_at lang = 0"
  by (auto simp: supportLang_at_def domIff)

lemma supportLang_at_Go: "supportLang_at ''Go'' = 0"
  by (simp add: supportLang_at_def supportLang_def)

lemma getBuildInTypeByLang_key:
  assumes "BuildInTypes k = Some v"
  shows "getBuildInTypeByLang k lang = Inr (v ! supportLang_at lang, True)"
  using BuildInTypes_value_shape(1) [OF assms] supportLang_at_bound [of lang]
  by (simp add: getBuildInTypeByLang_def assms)

text \<open>
  Claim C3 as stated, with 46 keys, fails: the map literal has 49 entries with 49
  different keys.
\<close>

theorem BuildInTypes_not_46_keys: "card (dom BuildInTypes) \<noteq> 46"
proof -
  have "card (dom BuildInTypes) = length (map fst BuildInTypes_entries)"
    unfolding dom_BuildInTypes by (rule distinct_card [OF BuildInTypes_keys_distinct])
  also have "\<dots> = 49" by (simp add: BuildInTypes_entries_def)
  finally show ?thesis by simp
qed

text \<open>
  Claim C3, as the source has it. The table has exactly 49 keys; exactly four of them
  start with \<open>xml:\<close>, and every value is a list of five spellings.
\<close>

theorem BuildInTypes_49_keys:
  "card (dom BuildInTypes) = 49
   \<and> card {k \<in> dom BuildInTypes. take 4 k = ''xml:''} = 4
   \<and> (\<forall>k v. BuildInTypes k = Some v \<longrightarrow> length v = 5)"
proof (intro conjI allI impI)
  have "card (dom BuildInTypes) = length (map fst BuildInTypes_entries)"
    unfolding dom_BuildInTypes by (rule distinct_card [OF BuildInTypes_keys_distinct])
  also have "\<dots> = 49" by (simp add: BuildInTypes_entries_def)
  finally show "card (dom BuildInTypes) = 49" .
next
  have s: "{k \<in> dom BuildInTypes. take 4 k = ''xml:''}
      = set (filter (\<lambda>k. take 4 k = ''xml:'') (map fst BuildInTypes_entries))"
    unfolding dom_BuildInTypes by (simp only: set_filter)
  have d: "distinct (filter (\<lambda>k. take 4 k = ''xml:'') (map fst BuildInTypes_entries))"
    by (rule distinct_filter [OF BuildInTypes_keys_distinct])
  have l: "length (filter (\<lambda>k. take 4 k = ''xml:'') (map fst BuildInTypes_entries)) = 4"
    unfolding BuildInTypes_entries_def by simp
  show "card {k \<in> dom BuildInTypes. take 4 k = ''xml:''} = 4"
    by (simp only: s distinct_card [OF d] l)
next
  fix k v assume "BuildInTypes k = Some v"
  then show "length v = 5" by (rule BuildInTypes_value_shape(1))
qed

theorem BuildInTypes_49_keys_witness:
  "BuildInTypes ''xml:lang'' = Some [''string'', ''string'', ''char'', ''String'', ''char'']
   \<and> length [''string'', ''string'', ''char'', ''String'', ''char''] = 5
   \<and> card (dom BuildInTypes) = 49"
proof -
  have h: "BuildInTypes ''xml:lang'' = Some [''string'', ''string'', ''char'', ''String'', ''char'']"
    by (simp add: BuildInTypes_def BuildInTypes_entries_def)
  have c: "card (dom BuildInTypes) = 49"
    using BuildInTypes_49_keys by (rule conjunct1)
  have "\<forall>k v. BuildInTypes k = Some v \<longrightarrow> length v = 5"
    using BuildInTypes_49_keys by (elim conjE)
  then have "length [''string'', ''string'', ''char'', ''String'', ''char''] = 5"
    using h by (elim allE impE)
  with h c show ?thesis by (intro conjI)
qed

text \<open>
  Claim C5. For every key of the table the lookup reports success for each of the five
  languages, and what it returns is the spelling at the language's place in the key's
  entry (Go first, then TypeScript, C, Java, Rust), which is never empty.
\<close>

theorem lookup_total_on_keys:
  assumes "k \<in> dom BuildInTypes"
  shows "\<exists>ts. BuildInTypes k = Some ts \<and> length ts = 5 \<and> (\<forall>t \<in> set ts. t \<noteq> [])
           \<and> getBuildInTypeByLang k ''Go'' = Inr (ts ! 0, True)
           \<and> getBuildInTypeByLang k ''TypeScript'' = Inr (ts ! 1, True)
           \<and> getBuildInTypeByLang k ''C'' = Inr (ts ! 2, True)
           \<and> getBuildInTypeByLang k ''Java'' = Inr (ts ! 3, True)
           \<and> getBuildInTypeByLang k ''Rust'' = Inr (ts ! 4, True)"
proof -
  from assms obtain ts where ts: "BuildInTypes k = Some ts" by blast
  have len: "length ts = 5" by (rule BuildInTypes_value_shape(1) [OF ts])
  have ne: "\<forall>t \<in> set ts. t \<noteq> []" by (rule BuildInTypes_value_shape(2) [OF ts])
  have go: "getBuildInTypeByLang k ''Go'' = Inr (ts ! 0, True)"
    by (simp add: getBuildInTypeByLang_key [OF ts] supportLang_at_def supportLang_def)
  have tsc: "getBuildInTypeByLang k ''TypeScript'' = Inr (ts ! 1, True)"
    by (simp add: getBuildInTypeByLang_key [OF ts] supportLang_at_def supportLang_def)
  have c: "getBuildInTypeByLang k ''C'' = Inr (ts ! 2, True)"
    by (simp add: getBuildInTypeByLang_key [OF ts] supportLang_at_def supportLang_def)
  have java: "getBuildInTypeByLang k ''Java'' = Inr (ts ! 3, True)"
    by (simp add: getBuildInTypeByLang_key [OF ts] supportLang_at_def supportLang_def)
  have rust: "getBuildInTypeByLang k ''Rust'' = Inr (ts ! 4, True)"
    by (simp add: getBuildInTypeByLang_key [OF ts] supportLang_at_def supportLang_def)
  from ts len ne go tsc c java rust show ?thesis by (intro exI [of _ ts] conjI)
qed

theorem lookup_total_on_keys_witness:
  "''unsignedShort'' \<in> dom BuildInTypes
   \<and> getBuildInTypeByLang ''unsignedShort'' ''Go'' = Inr (''uint16'', True)
   \<and> getBuildInTypeByLang ''unsignedShort'' ''TypeScript'' = Inr (''number'', True)
   \<and> getBuildInTypeByLang ''unsignedShort'' ''C'' = Inr (''unsigned int'', True)
   \<and> getBuildInTypeByLang ''unsignedShort'' ''Java'' = Inr (''Short'', True)
   \<and> getBuildInTypeByLang ''unsignedShort'' ''Rust'' = Inr (''u16'', True)"
proof -
  have k: "''unsignedShort'' \<in> dom BuildInTypes"
    by (simp add: dom_BuildInTypes BuildInTypes_entries_def)
  have e: "BuildInTypes ''unsignedShort''
      = Some [''uint16'', ''number'', ''unsigned int'', ''Short'', ''u16'']"
    by (simp add: BuildInTypes_def BuildInTypes_entries_def)
  from lookup_total_on_keys [OF k] obtain ts
    where ts: "BuildInTypes ''unsignedShort'' = Some ts"
      and go: "getBuildInTypeByLang ''unsignedShort'' ''Go'' = Inr (ts ! 0, True)"
      and tsc: "getBuildInTypeByLang ''unsignedShort'' ''TypeScript'' = Inr (ts ! 1, True)"
      and c: "getBuildInTypeByLang ''unsignedShort'' ''C'' = Inr (ts ! 2, True)"
      and java: "getBuildInTypeByLang ''unsignedShort'' ''Java'' = Inr (ts ! 3, True)"
      and rust: "getBuildInTypeByLang ''unsignedShort'' ''Rust'' = Inr (ts ! 4, True)"
    by (elim exE conjE)
  from ts e have v: "ts = [''uint16'', ''number'', ''unsigned int'', ''Short'', ''u16'']"
    by (simp only: option.inject)
  have 0: "getBuildInTypeByLang ''unsignedShort'' ''Go'' = Inr (''uint16'', True)"
    using go unfolding v by simp
  have 1: "getBuildInTypeByLang ''unsignedShort'' ''TypeScript'' = Inr (''number'', True)"
    using tsc unfolding v by simp
  have 2: "getBuildInTypeByLang ''unsignedShort'' ''C'' = Inr (''unsigned int'', True)"
    using c unfolding v by simp
  have 3: "getBuildInTypeByLang ''unsignedShort'' ''Java'' = Inr (''Short'', True)"
    using java unfolding v by simp
  have 4: "getBuildInTypeByLang ''unsignedShort'' ''Rust'' = Inr (''u16'', True)"
    using rust unfolding v by simp
  from k 0 1 2 3 4 show ?thesis by (intro conjI)
qed

text \<open>
  Claim C2 as stated fails for a key of the table and a language outside the five:
  the lookup of \<open>string\<close> for \<open>Python\<close> reports success.
\<close>

theorem lookup_unsupported_language_found:
  "getBuildInTypeByLang ''string'' ''Python'' = Inr (''string'', True)"
  by (simp add: getBuildInTypeByLang_def BuildInTypes_def BuildInTypes_entries_def
      supportLang_at_def supportLang_def)

text \<open>
  Claim C2, as the source has it. The lookup reports failure, with an empty name, when
  the name is not a key of the table, and success for every key of the table, with one
  of the five spellings of the key's entry. It never looks at whether the language is
  one of the five: for any other language the read \<^verbatim>\<open>supportLang[lang]\<close> gives index
  \<open>0\<close>, and the lookup returns the first spelling of the entry, as it does for Go.
\<close>

theorem lookup_not_found_only_for_unknown_name:
  "(v \<notin> dom BuildInTypes \<longrightarrow> getBuildInTypeByLang v lang = Inr ([], False))
   \<and> (\<forall>ts. BuildInTypes v = Some ts \<longrightarrow>
         (\<exists>i. i < 5 \<and> getBuildInTypeByLang v lang = Inr (ts ! i, True)))
   \<and> (\<forall>ts. BuildInTypes v = Some ts \<and> lang \<notin> dom supportLang \<longrightarrow>
         getBuildInTypeByLang v lang = Inr (ts ! 0, True)
         \<and> getBuildInTypeByLang v lang = getBuildInTypeByLang v ''Go'')
   \<and> dom supportLang = {''Go'', ''TypeScript'', ''C'', ''Java'', ''Rust''}"
proof (intro conjI allI impI)
  assume "v \<notin> dom BuildInTypes"
  then have "BuildInTypes v = None" by (simp add: domIff)
  then show "getBuildInTypeByLang v lang = Inr ([], False)"
    by (simp add: getBuildInTypeByLang_def)
next
  fix ts assume ts: "BuildInTypes v = Some ts"
  from getBuildInTypeByLang_key [OF ts] supportLang_at_bound [of lang]
  show "\<exists>i. i < 5 \<and> getBuildInTypeByLang v lang = Inr (ts ! i, True)" by blast
next
  fix ts assume h: "BuildInTypes v = Some ts \<and> lang \<notin> dom supportLang"
  then have ts: "BuildInTypes v = Some ts" and l: "lang \<notin> dom supportLang"
    by simp_all
  show "getBuildInTypeByLang v lang = Inr (ts ! 0, True)"
    by (simp only: getBuildInTypeByLang_key [OF ts] supportLang_at_unsupported [OF l])
  show "getBuildInTypeByLang v lang = getBuildInTypeByLang v ''Go''"
    by (simp only: getBuildInTypeByLang_key [OF ts] supportLang_at_unsupported [OF l]
        supportLang_at_Go)
next
  show "dom supportLang = {''Go'', ''TypeScript'', ''C'', ''Java'', ''Rust''}"
    unfolding supportLang_def dom_map_of_conv_image_fst by simp
qed

theorem lookup_not_found_only_for_unknown_name_witness:
  "''not-a-type'' \<notin> dom BuildInTypes
   \<and> getBuildInTypeByLang ''not-a-type'' ''Go'' = Inr ([], False)
   \<and> BuildInTypes ''date'' = Some [''time.Time'', ''string'', ''char'', ''Byte'', ''&[u8]'']
   \<and> ''Python'' \<notin> dom supportLang
   \<and> getBuildInTypeByLang ''date'' ''Python'' = Inr (''time.Time'', True)
   \<and> getBuildInTypeByLang ''date'' ''Python'' = getBuildInTypeByLang ''date'' ''Go''"
proof -
  have a: "''not-a-type'' \<notin> dom BuildInTypes"
    by (simp add: dom_BuildInTypes BuildInTypes_entries_def)
  have b: "BuildInTypes ''date'' = Some [''time.Time'', ''string'', ''char'', ''Byte'', ''&[u8]'']"
    by (simp add: BuildInTypes_def BuildInTypes_entries_def)
  have c: "''Python'' \<notin> dom supportLang"
    by (simp add: supportLang_def dom_map_of_conv_image_fst)
  have d: "getBuildInTypeByLang ''not-a-type'' ''Go'' = Inr ([], False)"
    by (rule lookup_not_found_only_for_unknown_name [of "''not-a-type''" "''Go''",
          THEN conjunct1, rule_format, OF a])
  from b c have bc: "BuildInTypes ''date'' = Some [''time.Time'', ''string'', ''char'', ''Byte'', ''&[u8]'']
      \<and> ''Python'' \<notin> dom supportLang"
    by (rule conjI)
  note e = lookup_not_found_only_for_unknown_name [of "''date''" "''Python''",
      THEN conjunct2, THEN conjunct2, THEN conjunct1, rule_format, OF bc]
  from e have "getBuildInTypeByLang ''date'' ''Python''
      = Inr ([''time.Time'', ''string'', ''char'', ''Byte'', ''&[u8]''] ! 0, True)"
    by (rule conjunct1)
  then have f: "getBuildInTypeByLang ''date'' ''Python'' = Inr (''time.Time'', True)"
    by simp
  from e have g: "getBuildInTypeByLang ''date'' ''Python'' = getBuildInTypeByLang ''date'' ''Go''"
    by (rule conjunct2)
  from a d b c f g show ?thesis by (intro conjI)
qed

section \<open>Properties of the resolver\<close>

lemma getBasefromSimpleType_skip:
  assumes "\<not> qualifying_SimpleType name d" and "\<not> named_Attribute_or_Element name d"
  shows "getBasefromSimpleType name (d # ds) = getBasefromSimpleType name ds"
  using assms by (cases d) auto

lemma getBasefromSimpleType_hit:
  assumes "qualifying_SimpleType name d \<or> named_Attribute_or_Element name d"
  shows "getBasefromSimpleType name (d # ds) = reference_of d"
  using assms by (cases d) auto

lemma getBasefromSimpleType_first_match:
  "getBasefromSimpleType name ds =
     (case find (\<lambda>d. qualifying_SimpleType name d \<or> named_Attribute_or_Element name d) ds of
        Some d \<Rightarrow> reference_of d
      | None \<Rightarrow> name)"
proof (induction ds)
  case Nil
  show ?case by simp
next
  case (Cons d ds)
  show ?case
  proof (cases "qualifying_SimpleType name d \<or> named_Attribute_or_Element name d")
    case True
    then show ?thesis
      by (simp only: getBasefromSimpleType_hit [OF True] find.simps if_True option.case)
  next
    case False
    then have "getBasefromSimpleType name (d # ds) = getBasefromSimpleType name ds"
      by (intro getBasefromSimpleType_skip) simp_all
    with False Cons.IH show ?thesis
      by (simp only: find.simps if_False)
  qed
qed

lemma kinds_exclusive:
  "qualifying_SimpleType name d \<Longrightarrow> \<not> named_Attribute_or_Element name d"
  by (cases d) simp_all

lemma ResolveBase_spec_agrees:
  assumes "\<forall>pre d post. ds = pre @ d # post \<and> qualifying_SimpleType name d
            \<longrightarrow> (\<forall>a \<in> set pre. \<not> named_Attribute_or_Element name a)"
  shows "getBasefromSimpleType name ds = ResolveBase_spec name ds"
  using assms
proof (induction ds)
  case Nil
  show ?case by (simp add: ResolveBase_spec_def)
next
  case (Cons x xs)
  consider (st) "qualifying_SimpleType name x"
    | (ae) "named_Attribute_or_Element name x"
    | (no) "\<not> qualifying_SimpleType name x" "\<not> named_Attribute_or_Element name x"
    by blast
  then show ?case
  proof cases
    case st
    then have "getBasefromSimpleType name (x # xs) = reference_of x"
      by (intro getBasefromSimpleType_hit) simp
    moreover from st have "ResolveBase_spec name (x # xs) = reference_of x"
      by (simp add: ResolveBase_spec_def)
    ultimately show ?thesis by simp
  next
    case ae
    then have nst: "\<not> qualifying_SimpleType name x"
      using kinds_exclusive by blast
    have none: "find (qualifying_SimpleType name) xs = None"
    proof (rule ccontr)
      assume "find (qualifying_SimpleType name) xs \<noteq> None"
      then obtain d where "d \<in> set xs" and q: "qualifying_SimpleType name d"
        by (auto simp: find_None_iff)
      then obtain p r where "xs = p @ d # r" by (auto dest: split_list)
      then have "x # xs = (x # p) @ d # r" by simp
      with Cons.prems q have "\<forall>a \<in> set (x # p). \<not> named_Attribute_or_Element name a"
        by blast
      with ae show False by simp
    qed
    from ae have "getBasefromSimpleType name (x # xs) = reference_of x"
      by (intro getBasefromSimpleType_hit) simp
    moreover from ae nst none have "ResolveBase_spec name (x # xs) = reference_of x"
      by (simp add: ResolveBase_spec_def split: option.split)
    ultimately show ?thesis by simp
  next
    case no
    have prems': "\<forall>pre d post. xs = pre @ d # post \<and> qualifying_SimpleType name d
            \<longrightarrow> (\<forall>a \<in> set pre. \<not> named_Attribute_or_Element name a)"
    proof (intro allI impI)
      fix pre d post
      assume h: "xs = pre @ d # post \<and> qualifying_SimpleType name d"
      then have "x # xs = (x # pre) @ d # post" by simp
      with Cons.prems h have "\<forall>a \<in> set (x # pre). \<not> named_Attribute_or_Element name a"
        by blast
      then show "\<forall>a \<in> set pre. \<not> named_Attribute_or_Element name a" by simp
    qed
    have "getBasefromSimpleType name (x # xs) = getBasefromSimpleType name xs"
      using no by (rule getBasefromSimpleType_skip)
    moreover have "ResolveBase_spec name (x # xs) = ResolveBase_spec name xs"
      using no by (simp add: ResolveBase_spec_def split: option.split)
    ultimately show ?thesis using Cons.IH [OF prems'] by simp
  qed
qed

text \<open>
  Claim C1 as stated fails: with an attribute named \<open>Foo\<close> before a simple type named
  \<open>Foo\<close> the function returns the attribute's type, where the two-pass reading of
  the claim returns the simple type's base.
\<close>

theorem earlier_attribute_shadows_simple_type:
  "getBasefromSimpleType ''Foo'' shadowing_schema = ''int''
   \<and> ResolveBase_spec ''Foo'' shadowing_schema = ''string''"
  by (simp add: shadowing_schema_def ResolveBase_spec_def)

text \<open>
  Claim C1, as the source has it. The scan is a single pass: the first declaration in
  list order that matches decides, be it a qualifying simple type, an attribute or an
  element, and the name comes back unchanged when nothing matches. A simple type has
  priority over a matching attribute or element only when it comes first: whenever no
  matching attribute or element stands before a qualifying simple type, the function
  agrees with the two-pass reading.
\<close>

theorem getBasefromSimpleType_first_match_wins:
  "getBasefromSimpleType name ds =
     (case find (\<lambda>d. qualifying_SimpleType name d \<or> named_Attribute_or_Element name d) ds of
        Some d \<Rightarrow> reference_of d
      | None \<Rightarrow> name)
   \<and> ((\<forall>pre d post. ds = pre @ d # post \<and> qualifying_SimpleType name d
            \<longrightarrow> (\<forall>a \<in> set pre. \<not> named_Attribute_or_Element name a))
        \<longrightarrow> getBasefromSimpleType name ds = ResolveBase_spec name ds)"
  using getBasefromSimpleType_first_match ResolveBase_spec_agrees by blast

theorem getBasefromSimpleType_first_match_wins_witness:
  "getBasefromSimpleType ''Foo''
      [OtherDecl, SimpleTypePtr \<lparr>SimpleType.Name = ''Foo'', Base = ''string'', List = False, Union = False\<rparr>]
     = ''string''
   \<and> ResolveBase_spec ''Foo''
      [OtherDecl, SimpleTypePtr \<lparr>SimpleType.Name = ''Foo'', Base = ''string'', List = False, Union = False\<rparr>]
     = ''string''
   \<and> getBasefromSimpleType ''Bar'' [] = ''Bar''"
proof -
  let ?st = "SimpleTypePtr \<lparr>SimpleType.Name = ''Foo'', Base = ''string'', List = False, Union = False\<rparr>"
  let ?ds = "[OtherDecl, ?st]"
  have h: "\<forall>pre d post. ?ds = pre @ d # post \<and> qualifying_SimpleType ''Foo'' d
            \<longrightarrow> (\<forall>a \<in> set pre. \<not> named_Attribute_or_Element ''Foo'' a)"
  proof (intro allI impI ballI)
    fix pre d post a
    assume e: "?ds = pre @ d # post \<and> qualifying_SimpleType ''Foo'' d" and a: "a \<in> set pre"
    from e have "set pre \<subseteq> {OtherDecl}"
      by (auto simp: Cons_eq_append_conv)
    with a have "a = OtherDecl" by blast
    then show "\<not> named_Attribute_or_Element ''Foo'' a" by simp
  qed
  note w = getBasefromSimpleType_first_match_wins [of "''Foo''" ?ds]
  from w have a: "getBasefromSimpleType ''Foo'' ?ds = ''string''" by simp
  from w h have "getBasefromSimpleType ''Foo'' ?ds = ResolveBase_spec ''Foo'' ?ds"
    by (elim conjE impE)
  with a have b: "ResolveBase_spec ''Foo'' ?ds = ''string''" by simp
  from getBasefromSimpleType_first_match_wins [of "''Bar''" "[]"]
  have c: "getBasefromSimpleType ''Bar'' [] = ''Bar''" by simp
  from a b c show ?thesis by (intro conjI)
qed

section \<open>Properties of the file listing\<close>

lemma walk_collects_visited:
  "\<forall>fp info err files. walkFn fp info err files = (files @ [fp], None)
     \<Longrightarrow> walk path t walkFn acc = (acc @ visited path t, None)"
  "\<forall>fp info err files. walkFn fp info err files = (files @ [fp], None)
     \<Longrightarrow> walk_names names walkFn acc = (acc @ visited_names names, None)"
proof (induction path t walkFn acc and names walkFn acc rule: walk_walk_names.induct)
  case (1 path walkFn st)
  then show ?case by simp
next
  case (2 path walkFn st)
  then show ?case by simp
next
  case (3 path e walkFn st)
  then show ?case by simp
next
  case (4 path names walkFn st)
  from "4.prems" have fn: "walkFn path (Some (Dir names)) None st = (st @ [path], None)"
    by simp
  from "4.IH" [OF fn [symmetric] refl "4.prems"]
  have "walk_names names walkFn (st @ [path]) = ((st @ [path]) @ visited_names names, None)" .
  then show ?case by (simp add: fn)
next
  case (5 walkFn st)
  show ?case by simp
next
  case (6 filename e names walkFn st)
  from "6.prems" have fn: "walkFn filename None (Some e) st = (st @ [filename], None)"
    by simp
  from "6.IH"(1) [OF fn [symmetric] refl "6.prems"]
  have "walk_names names walkFn (st @ [filename]) = ((st @ [filename]) @ visited_names names, None)" .
  then show ?case by (simp add: fn)
next
  case (7 filename fileInfo names walkFn st)
  have w: "walk filename fileInfo walkFn st = (st @ visited filename fileInfo, None)"
    by (rule "7.IH"(1) [OF "7.prems"])
  from "7.IH"(2) [OF w [symmetric] refl "7.prems"]
  have "walk_names names walkFn (st @ visited filename fileInfo)
      = ((st @ visited filename fileInfo) @ visited_names names, None)" .
  then show ?case by (simp add: w)
qed

lemma filepath_Walk_collects:
  assumes "os_Lstat fs root = Inr t"
  shows "filepath_Walk fs root (\<lambda>fp info err files. (files @ [fp], None)) []
           = (visited root t, None)"
proof -
  have "walk root t (\<lambda>fp info err files. (files @ [fp], None)) [] = ([] @ visited root t, None)"
    by (rule walk_collects_visited(1)) simp
  then show ?thesis by (simp add: filepath_Walk_def assms)
qed

lemma filepath_Walk_lstat_fails:
  assumes "os_Lstat fs root = Inl e"
  shows "filepath_Walk fs root (\<lambda>fp info err files. (files @ [fp], None)) [] = ([root], None)"
  by (simp add: filepath_Walk_def assms)

lemma visited_starts_at_root: "\<exists>rest. visited path t = path # rest"
  by (cases t) simp_all

text \<open>
  Claim C4 as stated fails on its example: for a directory \<open>d\<close> with exactly the
  entries \<open>A\<close> and \<open>B\<close> the list starts with \<open>d\<close> itself.
\<close>

theorem GetFileList_root_listed_first_too:
  "GetFileList two_entries_fs ''d'' = ([''d'', ''d/A'', ''d/B'', ''d''], None)
   \<and> GetFileList two_entries_fs ''d'' \<noteq> ([''d/A'', ''d/B'', ''d''], None)"
proof -
  have "os_Stat two_entries_fs ''d'' = Inr (Dir [(''d/A'', Inr File), (''d/B'', Inr File)])"
    and "os_Lstat two_entries_fs ''d'' = Inr (Dir [(''d/A'', Inr File), (''d/B'', Inr File)])"
    by (simp_all add: two_entries_fs_def os_Stat_def os_Lstat_def)
  then have "GetFileList two_entries_fs ''d'' = ([''d'', ''d/A'', ''d/B'', ''d''], None)"
    by (simp add: GetFileList_def filepath_Walk_def)
  then show ?thesis by simp
qed

text \<open>
  Claim C4, as the source has it. For a path that \<^verbatim>\<open>os.Stat\<close> does not report as a
  directory the list is the path alone. For one it reports as a directory the list is
  every path the walk visits, in the order visited, and the path once more at the end.
  The walk starts from what \<^verbatim>\<open>os.Lstat\<close> reports and visits the root first, so the list
  begins and ends with the path: for a directory with exactly the entries \<open>A\<close> and \<open>B\<close>
  it is the directory, \<open>A\<close>, \<open>B\<close>, and the directory again; for a symbolic link to a
  directory, which the walk does not follow, and for a root that \<^verbatim>\<open>os.Lstat\<close> fails on,
  it is the path twice. When \<^verbatim>\<open>os.Stat\<close> fails, the list is empty and the failure is
  returned.
\<close>

theorem GetFileList_visited_then_root:
  "(\<forall>fi t. os_Stat fs path = Inr fi \<and> IsDir fi \<and> os_Lstat fs path = Inr t \<longrightarrow>
       GetFileList fs path = (visited path t @ [path], None)
       \<and> (\<exists>rest. visited path t = path # rest))
   \<and> (\<forall>fi names. os_Stat fs path = Inr fi \<and> IsDir fi \<and> os_Lstat fs path = Inr (Dir names) \<longrightarrow>
       GetFileList fs path = (path # visited_names names @ [path], None))
   \<and> (\<forall>fi. os_Stat fs path = Inr fi \<and> IsDir fi \<and> os_Lstat fs path = Inr Symlink \<longrightarrow>
       GetFileList fs path = ([path, path], None))
   \<and> (\<forall>fi e. os_Stat fs path = Inr fi \<and> IsDir fi \<and> os_Lstat fs path = Inl e \<longrightarrow>
       GetFileList fs path = ([path, path], None))
   \<and> (\<forall>fi. os_Stat fs path = Inr fi \<and> \<not> IsDir fi \<longrightarrow> GetFileList fs path = ([path], None))
   \<and> (\<forall>e. os_Stat fs path = Inl e \<longrightarrow> GetFileList fs path = ([], Some e))"
proof (intro conjI allI impI)
  fix fi t assume h: "os_Stat fs path = Inr fi \<and> IsDir fi \<and> os_Lstat fs path = Inr t"
  then have l: "os_Lstat fs path = Inr t" by simp
  from h show "GetFileList fs path = (visited path t @ [path], None)"
    by (simp add: GetFileList_def filepath_Walk_collects [OF l])
  show "\<exists>rest. visited path t = path # rest" by (rule visited_starts_at_root)
next
  fix fi names
  assume h: "os_Stat fs path = Inr fi \<and> IsDir fi \<and> os_Lstat fs path = Inr (Dir names)"
  then have l: "os_Lstat fs path = Inr (Dir names)" by simp
  from h show "GetFileList fs path = (path # visited_names names @ [path], None)"
    by (simp add: GetFileList_def filepath_Walk_collects [OF l])
next
  fix fi assume h: "os_Stat fs path = Inr fi \<and> IsDir fi \<and> os_Lstat fs path = Inr Symlink"
  then have l: "os_Lstat fs path = Inr Symlink" by simp
  from h show "GetFileList fs path = ([path, path], None)"
    by (simp add: GetFileList_def filepath_Walk_collects [OF l])
next
  fix fi e assume h: "os_Stat fs path = Inr fi \<and> IsDir fi \<and> os_Lstat fs path = Inl e"
  then have l: "os_Lstat fs path = Inl e" by simp
  from h show "GetFileList fs path = ([path, path], None)"
    by (simp add: GetFileList_def filepath_Walk_lstat_fails [OF l])
next
  fix fi assume "os_Stat fs path = Inr fi \<and> \<not> IsDir fi"
  then show "GetFileList fs path = ([path], None)"
    by (simp add: GetFileList_def)
next
  fix e assume "os_Stat fs path = Inl e"
  then show "GetFileList fs path = ([], Some e)"
    by (simp add: GetFileList_def)
qed

theorem GetFileList_visited_then_root_witness:
  "GetFileList linked_fs ''d'' = ([''d'', ''d/A'', ''d/B'', ''d''], None)
   \<and> GetFileList linked_fs ''link'' = ([''link'', ''link''], None)
   \<and> GetFileList linked_fs ''d/A'' = ([''d/A''], None)
   \<and> GetFileList linked_fs ''x'' = ([], Some ErrNotExist)"
proof -
  note w = GetFileList_visited_then_root [of linked_fs]
  have d: "os_Stat linked_fs ''d'' = Inr (Dir [(''d/A'', Inr File), (''d/B'', Inr File)])
      \<and> IsDir (Dir [(''d/A'', Inr File), (''d/B'', Inr File)])
      \<and> os_Lstat linked_fs ''d'' = Inr (Dir [(''d/A'', Inr File), (''d/B'', Inr File)])"
    by (simp add: os_Stat_def os_Lstat_def linked_fs_def)
  have l: "os_Stat linked_fs ''link'' = Inr (Dir [(''d/A'', Inr File), (''d/B'', Inr File)])
      \<and> IsDir (Dir [(''d/A'', Inr File), (''d/B'', Inr File)])
      \<and> os_Lstat linked_fs ''link'' = Inr Symlink"
    by (simp add: os_Stat_def os_Lstat_def linked_fs_def)
  have f: "os_Stat linked_fs ''d/A'' = Inr File \<and> \<not> IsDir File"
    by (simp add: os_Stat_def linked_fs_def)
  have x: "os_Stat linked_fs ''x'' = Inl ErrNotExist"
    by (simp add: os_Stat_def linked_fs_def)
  have "GetFileList linked_fs ''d''
       = (''d'' # visited_names [(''d/A'', Inr File), (''d/B'', Inr File)] @ [''d''], None)"
    by (rule w [of "''d''", THEN conjunct2, THEN conjunct1, rule_format, OF d])
  then have 1: "GetFileList linked_fs ''d'' = ([''d'', ''d/A'', ''d/B'', ''d''], None)"
    by simp
  have 2: "GetFileList linked_fs ''link'' = ([''link'', ''link''], None)"
    by (rule w [of "''link''", THEN conjunct2, THEN conjunct2, THEN conjunct1, rule_format, OF l])
  have 3: "GetFileList linked_fs ''d/A'' = ([''d/A''], None)"
    by (rule w [of "''d/A''", THEN conjunct2, THEN conjunct2, THEN conjunct2, THEN conjunct2,
          THEN conjunct1, rule_format, OF f])
  have 4: "GetFileList linked_fs ''x'' = ([], Some ErrNotExist)"
    by (rule w [of "''x''", THEN conjunct2, THEN conjunct2, THEN conjunct2, THEN conjunct2,
          THEN conjunct2, rule_format, OF x])
  from 1 2 3 4 show ?thesis by (intro conjI)
qed

section \<open>Properties of the output directory\<close>

text \<open>
  Claim C9 fails on the source. When the status check fails for another reason than the
  path not existing, \<^verbatim>\<open>os.IsNotExist(err)\<close> is false, the creation is skipped and the
  function returns nil: the failure of the status check is dropped, and the file
  system is left as it was.
\<close>

theorem PrepareOutputDir_drops_stat_failure:
  assumes "path \<noteq> []" and "os_Stat fs path = Inl e" and "e \<noteq> ErrNotExist"
  shows "PrepareOutputDir fs path = (fs, None)"
proof -
  from assms(3) have "\<not> os_IsNotExist (Some e)" by (cases e) simp_all
  with assms(1,2) show ?thesis by (simp add: PrepareOutputDir_def)
qed

theorem PrepareOutputDir_drops_stat_failure_witness:
  "''locked/out'' \<noteq> [] \<and> os_Stat locked_fs ''locked/out'' = Inl ErrPermission
   \<and> ErrPermission \<noteq> ErrNotExist
   \<and> PrepareOutputDir locked_fs ''locked/out'' = (locked_fs, None)"
proof -
  have a: "''locked/out'' \<noteq> []" by simp
  have b: "os_Stat locked_fs ''locked/out'' = Inl ErrPermission"
    by (simp add: os_Stat_def locked_fs_def)
  have c: "ErrPermission \<noteq> ErrNotExist" by simp
  from PrepareOutputDir_drops_stat_failure [OF a b c] a b c show ?thesis by (intro conjI)
qed

section \<open>Properties of the fetch\<close>








section \<open>Properties of the dispatch\<close>

text \<open>
  Claim C8. On a generator without a method of the given name \<^verbatim>\<open>callFuncByName\<close>
  returns no error. When the method is there, a call that returns no result gives no
  error, a call whose one result is a non-nil error gives that error, and a call whose
  one result is nil gives no error.
\<close>

theorem callFuncByName_dispatch:
  "(methods name = None \<longrightarrow> callFuncByName (Some methods) name params = Inr None)
   \<and> (\<forall>f. methods name = Some f \<and> f params = Inr [] \<longrightarrow>
         callFuncByName (Some methods) name params = Inr None)
   \<and> (\<forall>f e. methods name = Some f \<and> f params = Inr [ErrorValue e] \<longrightarrow>
         callFuncByName (Some methods) name params = Inr (Some e))
   \<and> (\<forall>f. methods name = Some f \<and> f params = Inr [NilValue] \<longrightarrow>
         callFuncByName (Some methods) name params = Inr None)"
proof (intro conjI allI impI)
  assume "methods name = None"
  then show "callFuncByName (Some methods) name params = Inr None"
    by (simp add: callFuncByName_def)
next
  fix f assume "methods name = Some f \<and> f params = Inr []"
  then show "callFuncByName (Some methods) name params = Inr None"
    by (simp add: callFuncByName_def)
next
  fix f e assume "methods name = Some f \<and> f params = Inr [ErrorValue e]"
  then have "methods name = Some f" and "f params = Inr [ErrorValue e]" by simp_all
  moreover have "IsNil ([ErrorValue e] ! 0) = Inr False" by simp
  ultimately show "callFuncByName (Some methods) name params = Inr (Some e)"
    by (simp add: callFuncByName_def)
next
  fix f assume "methods name = Some f \<and> f params = Inr [NilValue]"
  then have "methods name = Some f" and "f params = Inr [NilValue]" by simp_all
  moreover have "IsNil ([NilValue] ! 0) = Inr True" by simp
  ultimately show "callFuncByName (Some methods) name params = Inr None"
    by (simp add: callFuncByName_def)
qed

theorem callFuncByName_dispatch_witness:
  "callFuncByName (Some sample_generator) ''GoComplexType'' [1, 2] = Inr None
   \<and> callFuncByName (Some sample_generator) ''GoElement'' [1, 2] = Inr None
   \<and> callFuncByName (Some sample_generator) ''GoSimpleType'' [1, 2] = Inr (Some (Err ''unsupported''))
   \<and> callFuncByName (Some sample_generator) ''GoAttribute'' [1, 2] = Inr None"
proof -
  note w = callFuncByName_dispatch [of sample_generator _ "[1, 2]"]
  have a: "sample_generator ''GoComplexType'' = None"
    by (simp add: sample_generator_def)
  have b: "sample_generator ''GoElement'' = Some (\<lambda>params. Inr [])
      \<and> (\<lambda>params. Inr []) [1, 2 :: nat] = (Inr [] :: panic + rvalue list)"
    by (simp add: sample_generator_def)
  have c: "sample_generator ''GoSimpleType'' = Some (\<lambda>params. Inr [ErrorValue (Err ''unsupported'')])
      \<and> (\<lambda>params. Inr [ErrorValue (Err ''unsupported'')]) [1, 2 :: nat]
          = (Inr [ErrorValue (Err ''unsupported'')] :: panic + rvalue list)"
    by (simp add: sample_generator_def)
  have d: "sample_generator ''GoAttribute'' = Some (\<lambda>params. Inr [NilValue])
      \<and> (\<lambda>params. Inr [NilValue]) [1, 2 :: nat] = (Inr [NilValue] :: panic + rvalue list)"
    by (simp add: sample_generator_def)
  have 1: "callFuncByName (Some sample_generator) ''GoComplexType'' [1, 2] = Inr None"
    by (rule w [of "''GoComplexType''", THEN conjunct1, rule_format, OF a])
  have 2: "callFuncByName (Some sample_generator) ''GoElement'' [1, 2] = Inr None"
    by (rule w [of "''GoElement''", THEN conjunct2, THEN conjunct1, rule_format, OF b])
  have 3: "callFuncByName (Some sample_generator) ''GoSimpleType'' [1, 2]
      = Inr (Some (Err ''unsupported''))"
    by (rule w [of "''GoSimpleType''", THEN conjunct2, THEN conjunct2, THEN conjunct1,
          rule_format, OF c])
  have 4: "callFuncByName (Some sample_generator) ''GoAttribute'' [1, 2] = Inr None"
    by (rule w [of "''GoAttribute''", THEN conjunct2, THEN conjunct2, THEN conjunct2,
          rule_format, OF d])
  from 1 2 3 4 show ?thesis by (intro conjI)
qed

end
